theory Spec2Isabelle
  imports Main "HOL-Library.AList"
begin

section \<open>Python values used by the Doctor\<close>

text \<open>
  Strings are character lists, a character being a code point below 256. The
  exceptions the Doctor raises are values of
  the type \<open>error\<close>; a function that can raise returns \<open>error + 'a\<close>
  with the exception on the left.
\<close>

datatype error =
    IOError string
  | ValueError string
  | RuntimeError string
  | AssertionError string
  | NotImplementedError string
  | IndexError
  | TypeError

text \<open>\<open>str.startswith\<close>.\<close>

definition startswith :: "string \<Rightarrow> string \<Rightarrow> bool" where
  "startswith s p = (take (length p) s = p)"

text \<open>
  The characters \<open>str.strip()\<close> removes when it is called without an
  argument: the white space of Python among the code points below 256.
\<close>

definition py_space :: "char \<Rightarrow> bool" where
  "py_space c = (c = CHR 0x09 \<or> c = CHR 0x0A \<or> c = CHR 0x0B \<or> c = CHR 0x0C
     \<or> c = CHR 0x0D \<or> c = CHR 0x1C \<or> c = CHR 0x1D \<or> c = CHR 0x1E \<or> c = CHR 0x1F
     \<or> c = CHR 0x20 \<or> c = CHR 0x85 \<or> c = CHR 0xA0)"

definition strip :: "string \<Rightarrow> string" where
  "strip s = rev (dropWhile py_space (rev (dropWhile py_space s)))"

text \<open>The end-of-line characters, as in \<open>rstrip("\n\r")\<close> and \<open>[\r\n]\<close>.\<close>

definition is_eol :: "char \<Rightarrow> bool" where
  "is_eol c = (c = CHR 0x0A \<or> c = CHR 0x0D)"

definition rstrip_eol :: "string \<Rightarrow> string" where
  "rstrip_eol s = rev (dropWhile is_eol (rev s))"

section \<open>The content cache (getter.py)\<close>

subsection \<open>\<open>DocGetter.Cache\<close> and \<open>Cache.read\<close>\<close>

record cache =
  absPath :: string
  fragment :: string
  contentLines :: "string list"

text \<open>
  \<open>contentLines[-1] = contentLines[-1].rstrip("\n\r")\<close> inside
  \<open>try ... except IndexError: pass\<close>: an empty list is left as it is.
\<close>

definition strip_last_line :: "string list \<Rightarrow> string list" where
  "strip_last_line ls = (if ls = [] then [] else butlast ls @ [rstrip_eol (last ls)])"

text \<open>
  The second \<open>if\<close> of the loop body of \<open>Cache.read\<close>: a line that
  starts with \<open>#\<close> opens a fragment unless the name is empty or starts with
  another \<open>#\<close>.
\<close>

definition open_fragment :: "string \<Rightarrow> (string \<times> string list) option" where
  "open_fragment line =
     (if startswith line ''#'' then
        (let name = strip (drop 1 line) in
         if name = [] \<or> startswith name ''#'' then None else Some (name, []))
      else None)"

text \<open>
  \<open>Cache.read\<close> is a generator over the lines of the file. The state of its
  loop is the pair of the variables \<open>fragment\<close> and \<open>contentLines\<close>,
  which are either both \<open>None\<close> or both set. The result is the list of
  the objects the generator yields, in order.
\<close>

fun read_lines_from :: "string \<Rightarrow> (string \<times> string list) option \<Rightarrow> string list \<Rightarrow> cache list" where
  "read_lines_from p None [] = []"
| "read_lines_from p (Some (name, ls)) [] =
     [\<lparr>absPath = p, fragment = name, contentLines = ls\<rparr>]"
| "read_lines_from p None (line # rest) = read_lines_from p (open_fragment line) rest"
| "read_lines_from p (Some (name, ls)) (line # rest) =
     (if startswith line ''#'' \<and> \<not> startswith line ''##'' then
        \<lparr>absPath = p, fragment = name, contentLines = strip_last_line ls\<rparr>
          # read_lines_from p (open_fragment line) rest
      else read_lines_from p (Some (name, ls @ [line])) rest)"

definition Cache_read :: "string \<Rightarrow> string list \<Rightarrow> cache list" where
  "Cache_read p file_lines = read_lines_from p None file_lines"

subsection \<open>\<open>DocGetter\<close>: loading files and looking fragments up\<close>

record doc_getter =
  cachedFragments :: "cache list"
  cachedFiles :: "string list"

definition new_getter :: doc_getter where
  "new_getter = \<lparr>cachedFragments = [], cachedFiles = []\<rparr>"

text \<open>
  What the getter takes from the standard library and the file system:
  \<open>urllib.parse.urlparse\<close> (of which the code reads the fields
  \<open>netloc\<close>, \<open>path\<close> and \<open>fragment\<close>), \<open>os.path.abspath\<close>,
  \<open>os.path.dirname\<close>, \<open>os.path.relpath\<close>, and the lines of the file at
  a path (\<open>None\<close> when \<open>open\<close> raises).
\<close>

record parse_result =
  netloc :: string
  url_path :: string
  url_fragment :: string

record os_env =
  env_urlparse :: "string \<Rightarrow> parse_result"
  env_abspath :: "string \<Rightarrow> string"
  env_dirname :: "string \<Rightarrow> string"
  env_relpath :: "string \<Rightarrow> string"
  env_open :: "string \<Rightarrow> string list option"

text \<open>
  The loop of \<open>load_file\<close> over the fragments read from one file. Each
  fragment is put at the front of \<open>_cachedFragments\<close> before the check for a
  repeated name; the path is appended to \<open>_cachedFiles\<close> once for each
  fragment.
\<close>

fun load_fragments :: "string \<Rightarrow> cache list \<Rightarrow> string list \<Rightarrow> doc_getter \<Rightarrow> error + doc_getter" where
  "load_fragments p [] seen g = Inr g"
| "load_fragments p (c # cs) seen g =
     (if fragment c \<in> set seen then Inl (RuntimeError ''Repeated fragment'')
      else load_fragments p cs (seen @ [fragment c])
             \<lparr>cachedFragments = c # cachedFragments g, cachedFiles = cachedFiles g @ [p]\<rparr>)"

definition load_file :: "os_env \<Rightarrow> string \<Rightarrow> doc_getter \<Rightarrow> error + doc_getter" where
  "load_file env p g =
     (if p \<in> set (cachedFiles g) then Inr g
      else case env_open env p of
             None \<Rightarrow> Inl (IOError p)
           | Some file_lines \<Rightarrow> load_fragments p (Cache_read p file_lines) [] g)"

text \<open>\<open>DocGetter.load\<close> on a list of paths of files: one \<open>load_file\<close> after the other.\<close>

fun load_files :: "os_env \<Rightarrow> string list \<Rightarrow> doc_getter \<Rightarrow> error + doc_getter" where
  "load_files env [] g = Inr g"
| "load_files env (p # ps) g =
     (case load_file env p g of Inl e \<Rightarrow> Inl e | Inr g' \<Rightarrow> load_files env ps g')"

text \<open>
  The search loop of \<open>_get_content\<close>: it runs over the whole list and keeps
  the last entry that matches.
\<close>

definition cache_matches :: "string \<Rightarrow> string option \<Rightarrow> cache \<Rightarrow> bool" where
  "cache_matches frag p c = (fragment c = frag \<and> (p = None \<or> Some (absPath c) = p))"

definition find_cached :: "string \<Rightarrow> string option \<Rightarrow> cache list \<Rightarrow> cache option" where
  "find_cached frag p cs =
     fold (\<lambda>c found. if cache_matches frag p c then Some c else found) cs None"

text \<open>\<open>os.path.join(path, os.path.pardir)\<close> on POSIX.\<close>

definition join_pardir :: "string \<Rightarrow> string" where
  "join_pardir d = (if d = [] \<or> last d = CHR ''/'' then d @ ''..'' else d @ ''/..'')"

definition replace_backslash :: "string \<Rightarrow> string" where
  "replace_backslash s = map (\<lambda>c. if c = CHR 0x5C then CHR ''/'' else c) s"

text \<open>
  \<open>DocGetter._get_content\<close>. The base path is the \<open>source\<close> attribute of
  the reference, which may be absent. The getter is returned with the cache,
  because \<open>load_file\<close> may have changed it.
\<close>

definition content_path :: "os_env \<Rightarrow> parse_result \<Rightarrow> string option \<Rightarrow> error + string option" where
  "content_path env parsed basePath =
     (if netloc parsed = ''.'' \<or> netloc parsed = ''..'' then
        (case basePath of
           None \<Rightarrow> Inl TypeError
         | Some b \<Rightarrow>
             (let d = env_dirname env (env_abspath env b);
                  d' = (if netloc parsed = ''..'' then join_pardir d else d)
              in Inr (Some (env_abspath env (d' @ url_path parsed)))))
      else if netloc parsed = [] then Inr None
      else Inl (ValueError ''Don't know how to get_content''))"

definition get_content0 :: "os_env \<Rightarrow> doc_getter \<Rightarrow> string \<Rightarrow> string option \<Rightarrow> error + (cache \<times> doc_getter)" where
  "get_content0 env g uri basePath =
     (let parsed = env_urlparse env (replace_backslash uri) in
      case content_path env parsed basePath of
        Inl e \<Rightarrow> Inl e
      | Inr p \<Rightarrow>
          (case (case p of None \<Rightarrow> Inr g | Some q \<Rightarrow> load_file env q g) of
             Inl (IOError m) \<Rightarrow> Inl (IOError ''Error getting content'')
           | Inl e \<Rightarrow> Inl e
           | Inr g' \<Rightarrow>
               (case find_cached (url_fragment parsed) p (cachedFragments g') of
                  None \<Rightarrow> Inl (ValueError ''Content for URI not found'')
                | Some c \<Rightarrow> Inr (c, g'))))"

text \<open>Whether the file at a path holds a fragment of a given name.\<close>

definition file_has_fragment :: "os_env \<Rightarrow> string \<Rightarrow> string \<Rightarrow> bool" where
  "file_has_fragment env p f =
     (case env_open env p of None \<Rightarrow> False
      | Some file_lines \<Rightarrow> f \<in> fragment ` set (Cache_read p file_lines))"

text \<open>
  Two content files that both hold a fragment \<open>frag\<close>, and a
  \<open>urlparse\<close> that reads the cache-only URI \<open>doc://#frag\<close>.
\<close>

definition two_files_env :: os_env where
  "two_files_env =
     \<lparr>env_urlparse = (\<lambda>u. \<lparr>netloc = [], url_path = [], url_fragment = drop 7 u\<rparr>),
      env_abspath = (\<lambda>p. p), env_dirname = (\<lambda>p. p), env_relpath = (\<lambda>p. p),
      env_open = (\<lambda>p. if p = ''/a.md'' then Some [''# frag\<newline>'', ''first\<newline>'']
                       else if p = ''/b.md'' then Some [''# frag\<newline>'', ''second\<newline>'']
                       else None)\<rparr>"

subsection \<open>The format of a content file\<close>

text \<open>
  C8. The claim: the body of every fragment, the last of the file included,
  is the lines after its header up to the next single-\<open>#\<close> line or the
  end of the file, with the end-of-line sequence of the final body line
  stripped. \<open>Cache.read\<close> strips the final line only where the fragment is
  closed by a following \<open>#\<close> line; the fragment closed by the end of the
  file is yielded as it was read. On the file of two lines
  \<open># intro\<close>, \<open>Hello world\<close> the body keeps its newline.
\<close>

theorem Cache_read_last_fragment_keeps_eol:
  "Cache_read ''/d/notes.md'' [''# intro\<newline>'', ''Hello world\<newline>'']
     = [\<lparr>absPath = ''/d/notes.md'', fragment = ''intro'',
          contentLines = [''Hello world\<newline>'']\<rparr>]"
  by (simp add: Cache_read_def open_fragment_def startswith_def strip_def py_space_def)

text \<open>
  For comparison, the same fragment followed by another header: there the final
  line is stripped.
\<close>

lemma Cache_read_inner_fragment_stripped:
  "Cache_read ''/d/notes.md''
      [''# intro\<newline>'', ''Hello world\<newline>'', ''# next\<newline>'']
     = [\<lparr>absPath = ''/d/notes.md'', fragment = ''intro'', contentLines = [''Hello world'']\<rparr>,
        \<lparr>absPath = ''/d/notes.md'', fragment = ''next'', contentLines = []\<rparr>]"
  by (simp add: Cache_read_def open_fragment_def startswith_def strip_def py_space_def
      strip_last_line_def rstrip_eol_def is_eol_def)

subsection \<open>Lookup of a fragment that several files hold\<close>

lemma find_cached_filter:
  "find_cached f p cs =
     (case filter (cache_matches f p) cs of [] \<Rightarrow> None | xs \<Rightarrow> Some (last xs))"
proof -
  have "\<And>acc. fold (\<lambda>c found. if cache_matches f p c then Some c else found) cs acc
          = (case filter (cache_matches f p) cs of [] \<Rightarrow> acc | xs \<Rightarrow> Some (last xs))"
    by (induction cs) (auto split: list.splits)
  thus ?thesis by (simp add: find_cached_def)
qed

lemma find_cached_append:
  "find_cached f p (new @ old) =
     (case find_cached f p old of Some c \<Rightarrow> Some c | None \<Rightarrow> find_cached f p new)"
proof (cases "filter (cache_matches f p) old")
  case Nil
  then show ?thesis by (simp add: find_cached_filter)
next
  case (Cons y ys)
  then show ?thesis
    by (cases "filter (cache_matches f p) new") (simp_all add: find_cached_filter)
qed

lemma find_cached_None:
  "find_cached f p cs = None \<longleftrightarrow> (\<forall>c \<in> set cs. \<not> cache_matches f p c)"
  unfolding find_cached_def by (induction cs rule: rev_induct) auto

lemma find_cached_Some:
  assumes "find_cached f p cs = Some c"
  shows "c \<in> set cs \<and> cache_matches f p c"
proof -
  from assms obtain x xs where e: "filter (cache_matches f p) cs = x # xs"
    and l: "c = last (x # xs)"
    by (auto simp: find_cached_filter split: list.splits)
  have "last (x # xs) \<in> set (filter (cache_matches f p) cs)"
    unfolding e by (rule last_in_set) simp
  thus ?thesis using l by auto
qed

lemma read_lines_from_absPath: "c \<in> set (read_lines_from p st ls) \<Longrightarrow> absPath c = p"
  by (induction p st ls rule: read_lines_from.induct) (auto split: if_splits)

lemma Cache_read_absPath: "c \<in> set (Cache_read p ls) \<Longrightarrow> absPath c = p"
  unfolding Cache_read_def by (rule read_lines_from_absPath)

lemma load_fragments_Inr:
  "load_fragments p cs seen g = Inr g' \<Longrightarrow>
     cachedFragments g' = rev cs @ cachedFragments g
     \<and> set (cachedFiles g') \<subseteq> insert p (set (cachedFiles g))"
  by (induction p cs seen g rule: load_fragments.induct) (auto split: if_splits)

lemma load_file_Inr:
  assumes "load_file env p g = Inr g'"
  shows "(p \<in> set (cachedFiles g) \<and> g' = g) \<or>
         (p \<notin> set (cachedFiles g) \<and> (\<exists>ls. env_open env p = Some ls
            \<and> cachedFragments g' = rev (Cache_read p ls) @ cachedFragments g
            \<and> set (cachedFiles g') \<subseteq> insert p (set (cachedFiles g))))"
  using assms
  by (auto simp: load_file_def split: if_splits option.splits dest: load_fragments_Inr)

lemma load_files_append:
  "load_files env (xs @ ys) g = Inr g' \<longleftrightarrow>
     (\<exists>g1. load_files env xs g = Inr g1 \<and> load_files env ys g1 = Inr g')"
  by (induction xs arbitrary: g) (auto split: sum.splits)

text \<open>
  Loading files none of which holds the fragment leaves the lookup empty, and
  leaves every loaded file without it.
\<close>

lemma load_without_fragment:
  assumes "load_files env ps g = Inr g'"
      and "\<forall>q \<in> set ps. \<not> file_has_fragment env q f"
      and "find_cached f None (cachedFragments g) = None"
      and "\<forall>q \<in> set (cachedFiles g). \<not> file_has_fragment env q f"
  shows "find_cached f None (cachedFragments g') = None
         \<and> (\<forall>q \<in> set (cachedFiles g'). \<not> file_has_fragment env q f)"
  using assms
proof (induction ps arbitrary: g)
  case Nil
  then show ?case by simp
next
  case (Cons q ps)
  from Cons.prems(1) obtain g1 where l1: "load_file env q g = Inr g1"
    and l2: "load_files env ps g1 = Inr g'" by (auto split: sum.splits)
  have nq: "\<not> file_has_fragment env q f" using Cons.prems(2) by simp
  from load_file_Inr[OF l1] have
    "find_cached f None (cachedFragments g1) = None
       \<and> (\<forall>q \<in> set (cachedFiles g1). \<not> file_has_fragment env q f)"
  proof
    assume "q \<in> set (cachedFiles g) \<and> g1 = g"
    thus ?thesis using Cons.prems(3,4) by simp
  next
    assume "q \<notin> set (cachedFiles g) \<and> (\<exists>ls. env_open env q = Some ls
            \<and> cachedFragments g1 = rev (Cache_read q ls) @ cachedFragments g
            \<and> set (cachedFiles g1) \<subseteq> insert q (set (cachedFiles g)))"
    then obtain ls where o: "env_open env q = Some ls"
      and cf: "cachedFragments g1 = rev (Cache_read q ls) @ cachedFragments g"
      and fs: "set (cachedFiles g1) \<subseteq> insert q (set (cachedFiles g))" by blast
    have "\<forall>c \<in> set (Cache_read q ls). fragment c \<noteq> f"
      using nq o by (auto simp: file_has_fragment_def)
    hence "find_cached f None (rev (Cache_read q ls)) = None"
      by (auto simp: find_cached_None cache_matches_def)
    hence "find_cached f None (cachedFragments g1) = None"
      using Cons.prems(3) by (simp add: cf find_cached_append)
    moreover have "\<forall>q \<in> set (cachedFiles g1). \<not> file_has_fragment env q f"
      using fs nq Cons.prems(4) by auto
    ultimately show ?thesis by simp
  qed
  thus ?case using Cons.IH[OF l2] Cons.prems(2) by simp
qed

text \<open>Once the lookup finds an entry, loading more files does not change it.\<close>

lemma load_keeps_found:
  "load_files env ps g = Inr g' \<Longrightarrow> find_cached f None (cachedFragments g) = Some c
     \<Longrightarrow> find_cached f None (cachedFragments g') = Some c"
proof (induction ps arbitrary: g)
  case Nil
  then show ?case by simp
next
  case (Cons q ps)
  from Cons.prems(1) obtain g1 where l1: "load_file env q g = Inr g1"
    and l2: "load_files env ps g1 = Inr g'" by (auto split: sum.splits)
  have "find_cached f None (cachedFragments g1) = Some c"
    using load_file_Inr[OF l1] Cons.prems(2) by (auto simp: find_cached_append)
  thus ?case using Cons.IH[OF l2] by simp
qed

text \<open>
  C10. A cache-only reference (empty host) to a fragment that loaded files
  hold: when the files \<open>pre @ p # post\<close> were loaded in this order into a
  new getter, no file of \<open>pre\<close> holds the fragment and \<open>p\<close> does, then
  whatever the later files hold, \<open>_get_content\<close> does not fail, leaves the
  getter as it is and returns the entry of \<open>p\<close>, the earliest-loaded file
  with the fragment.
\<close>

theorem cache_only_lookup_earliest_file:
  assumes loaded: "load_files env (pre @ p # post) new_getter = Inr g"
      and earlier: "\<forall>q \<in> set pre. \<not> file_has_fragment env q f"
      and here: "file_has_fragment env p f"
      and host: "netloc (env_urlparse env (replace_backslash uri)) = []"
      and frag: "url_fragment (env_urlparse env (replace_backslash uri)) = f"
  shows "\<exists>c. get_content0 env g uri basePath = Inr (c, g) \<and> absPath c = p \<and> fragment c = f"
proof -
  from loaded obtain g1 where l1: "load_files env pre new_getter = Inr g1"
    and l23: "load_files env (p # post) g1 = Inr g"
    unfolding load_files_append by blast
  from l23 obtain g2 where l2: "load_file env p g1 = Inr g2"
    and l3: "load_files env post g2 = Inr g"
    by (cases "load_file env p g1") auto
  have i1: "find_cached f None (cachedFragments g1) = None
         \<and> (\<forall>q \<in> set (cachedFiles g1). \<not> file_has_fragment env q f)"
    by (rule load_without_fragment[OF l1 earlier]) (simp_all add: new_getter_def find_cached_def)
  hence "p \<notin> set (cachedFiles g1)" using here by auto
  with load_file_Inr[OF l2] obtain ls where o: "env_open env p = Some ls"
      and cf: "cachedFragments g2 = rev (Cache_read p ls) @ cachedFragments g1" by blast
  have "\<exists>c \<in> set (rev (Cache_read p ls)). cache_matches f None c"
    using here o by (auto simp: file_has_fragment_def cache_matches_def)
  then obtain c where c: "find_cached f None (rev (Cache_read p ls)) = Some c"
    using find_cached_None[of f None "rev (Cache_read p ls)"]
    by (cases "find_cached f None (rev (Cache_read p ls))") auto
  from find_cached_Some[OF c] have cp: "absPath c = p" and cfr: "fragment c = f"
    by (auto simp: cache_matches_def dest: Cache_read_absPath)
  have "find_cached f None (cachedFragments g2) = Some c"
    using i1 c by (simp add: cf find_cached_append)
  hence "find_cached f None (cachedFragments g) = Some c" by (rule load_keeps_found[OF l3])
  hence "get_content0 env g uri basePath = Inr (c, g)"
    using host frag by (simp add: get_content0_def content_path_def Let_def)
  thus ?thesis using cp cfr by blast
qed

lemmas getter_defs = load_file_def Cache_read_def open_fragment_def startswith_def strip_def
  py_space_def strip_last_line_def rstrip_eol_def is_eol_def new_getter_def two_files_env_def

theorem cache_only_lookup_earliest_file_witness:
  "load_files two_files_env [''/a.md'', ''/b.md''] new_getter
     = Inr \<lparr>cachedFragments =
              [\<lparr>absPath = ''/b.md'', fragment = ''frag'', contentLines = [''second\<newline>'']\<rparr>,
               \<lparr>absPath = ''/a.md'', fragment = ''frag'', contentLines = [''first\<newline>'']\<rparr>],
            cachedFiles = [''/a.md'', ''/b.md'']\<rparr>
   \<and> file_has_fragment two_files_env ''/a.md'' ''frag''
   \<and> file_has_fragment two_files_env ''/b.md'' ''frag''
   \<and> (\<exists>c. get_content0 two_files_env
              \<lparr>cachedFragments =
                [\<lparr>absPath = ''/b.md'', fragment = ''frag'', contentLines = [''second\<newline>'']\<rparr>,
                 \<lparr>absPath = ''/a.md'', fragment = ''frag'', contentLines = [''first\<newline>'']\<rparr>],
               cachedFiles = [''/a.md'', ''/b.md'']\<rparr>
              ''doc://#frag'' None
            = Inr (c, \<lparr>cachedFragments =
                [\<lparr>absPath = ''/b.md'', fragment = ''frag'', contentLines = [''second\<newline>'']\<rparr>,
                 \<lparr>absPath = ''/a.md'', fragment = ''frag'', contentLines = [''first\<newline>'']\<rparr>],
               cachedFiles = [''/a.md'', ''/b.md'']\<rparr>)
          \<and> absPath c = ''/a.md'' \<and> fragment c = ''frag'')"
proof -
  let ?g = "\<lparr>cachedFragments =
              [\<lparr>absPath = ''/b.md'', fragment = ''frag'', contentLines = [''second\<newline>'']\<rparr>,
               \<lparr>absPath = ''/a.md'', fragment = ''frag'', contentLines = [''first\<newline>'']\<rparr>],
            cachedFiles = [''/a.md'', ''/b.md'']\<rparr>"
  have l: "load_files two_files_env ([] @ ''/a.md'' # [''/b.md'']) new_getter = Inr ?g"
    by (simp add: getter_defs)
  have a: "file_has_fragment two_files_env ''/a.md'' ''frag''"
    by (simp add: file_has_fragment_def getter_defs)
  have b: "file_has_fragment two_files_env ''/b.md'' ''frag''"
    by (simp add: file_has_fragment_def getter_defs)
  have h: "netloc (env_urlparse two_files_env (replace_backslash ''doc://#frag'')) = []"
    by (simp add: two_files_env_def)
  have f: "url_fragment (env_urlparse two_files_env (replace_backslash ''doc://#frag'')) = ''frag''"
    by (simp add: two_files_env_def replace_backslash_def)
  have e: "\<forall>q \<in> set []. \<not> file_has_fragment two_files_env q ''frag''" by simp
  from cache_only_lookup_earliest_file[OF l e a h f, of None] l a b
  show ?thesis by simp
qed

section \<open>At-commands (output_tree.py, comment_block.py)\<close>

subsection \<open>Python string functions\<close>

text \<open>
  A character is a code point below 256. \<open>str.lower\<close> and
  \<open>str.capitalize\<close> are applied by the Doctor only to the text of a
  \<open>command\<close> group of the pattern below, which is one of its ASCII
  keywords; they are given here on the ASCII letters and leave every other
  character as it is.
\<close>

definition lower_char :: "char \<Rightarrow> char" where
  "lower_char c =
     (case map_of (zip ''ABCDEFGHIJKLMNOPQRSTUVWXYZ'' ''abcdefghijklmnopqrstuvwxyz'') c of
        Some d \<Rightarrow> d | None \<Rightarrow> c)"

definition upper_char :: "char \<Rightarrow> char" where
  "upper_char c =
     (case map_of (zip ''abcdefghijklmnopqrstuvwxyz'' ''ABCDEFGHIJKLMNOPQRSTUVWXYZ'') c of
        Some d \<Rightarrow> d | None \<Rightarrow> c)"

definition lower :: "string \<Rightarrow> string" where
  "lower s = map lower_char s"

definition capitalize :: "string \<Rightarrow> string" where
  "capitalize s = (case s of [] \<Rightarrow> [] | c # r \<Rightarrow> upper_char c # lower r)"

text \<open>
  The characters of \<open>\w\<close> in a pattern that is a \<open>str\<close> and is
  compiled without \<open>re.ASCII\<close>: the alphanumeric characters of Unicode
  and the underscore. Below 256 these are the ASCII digits and letters, the
  underscore, the ordinal indicators \<open>0xAA\<close> and \<open>0xBA\<close>, the
  superscript digits \<open>0xB2\<close>, \<open>0xB3\<close> and \<open>0xB9\<close>, the micro
  sign \<open>0xB5\<close>, the fractions \<open>0xBC\<close> to \<open>0xBE\<close>, and the
  letters from \<open>0xC0\<close> to \<open>0xFF\<close> without the multiplication sign
  \<open>0xD7\<close> and the division sign \<open>0xF7\<close>.
\<close>

definition is_word :: "char \<Rightarrow> bool" where
  "is_word c =
     (let n = (of_char c :: nat) in
      (48 \<le> n \<and> n \<le> 57) \<or> (65 \<le> n \<and> n \<le> 90) \<or> n = 95 \<or> (97 \<le> n \<and> n \<le> 122)
      \<or> n = 170 \<or> n = 178 \<or> n = 179 \<or> n = 181 \<or> n = 185 \<or> n = 186
      \<or> (188 \<le> n \<and> n \<le> 190) \<or> (192 \<le> n \<and> n \<le> 214) \<or> (216 \<le> n \<and> n \<le> 246)
      \<or> (248 \<le> n \<and> n \<le> 255))"

text \<open>The space of \<open> +\<close> and \<open> *\<close>.\<close>

definition is_sp :: "char \<Rightarrow> bool" where
  "is_sp c = (c = CHR '' '')"

subsection \<open>The regular expression \<open>atCommand\<close>\<close>

text \<open>
  The pattern is compiled without flags and used with \<open>match\<close>, so it
  matches at the start of the string only and is case sensitive:

  \<^verbatim>\<open>@(?:(?P<commandDrop>(?:brief|description|details)) +\<close>
  \<^verbatim>\<open>  |(?P<commandReturn>return)s? +\<close>
  \<^verbatim>\<open>  |(?P<commandCapitalise>version) +\<close>
  \<^verbatim>\<open>  |(?P<commandParameter>param)(?:eter)? +(?P<name>\w+) *\<close>
  \<^verbatim>\<open>  |(?P<commandIgnore>file) +)\<close>

  A match is the \<open>command\<close> group that took part in it with the text it
  captured (and the \<open>name\<close> group for a parameter), and the end of the
  match.
\<close>

datatype at_command =
    CommandDrop string
  | CommandReturn string
  | CommandCapitalise string
  | CommandParameter string string
  | CommandIgnore string

text \<open>\<open> +\<close> at the start of a string: the number of spaces it takes, at least one.\<close>

definition spaces1 :: "string \<Rightarrow> nat option" where
  "spaces1 s = (let n = length (takeWhile is_sp s) in if n = 0 then None else Some n)"

text \<open>A literal keyword and \<open> +\<close>: the length of what they match.\<close>

definition keyword_spaces :: "string \<Rightarrow> string \<Rightarrow> nat option" where
  "keyword_spaces kw s =
     (if startswith s kw then map_option (\<lambda>n. length kw + n) (spaces1 (drop (length kw) s))
      else None)"

text \<open>\<open>(?:brief|description|details)) +\<close>: the alternatives in their order.\<close>

fun first_keyword :: "string list \<Rightarrow> string \<Rightarrow> (string \<times> nat) option" where
  "first_keyword [] s = None"
| "first_keyword (kw # kws) s =
     (case keyword_spaces kw s of Some n \<Rightarrow> Some (kw, n) | None \<Rightarrow> first_keyword kws s)"

text \<open>
  \<open>return\<close>, then \<open>s?\<close>, which takes an \<open>s\<close> when there is one and
  gives it back when the spaces do not follow, then \<open> +\<close>.
\<close>

definition match_return :: "string \<Rightarrow> nat option" where
  "match_return s =
     (if startswith s ''return'' then
        (case (if startswith (drop 6 s) ''s'' then spaces1 (drop 7 s) else None) of
           Some n \<Rightarrow> Some (7 + n)
         | None \<Rightarrow> map_option (\<lambda>n. 6 + n) (spaces1 (drop 6 s)))
      else None)"

text \<open>
  \<open> +(?P<name>\w+) *\<close>: all the spaces, then all the word characters, of
  which there is at least one, then all the spaces. Giving back a space or a
  word character cannot make a later part match. The result is the name and the
  length of the match.
\<close>

definition param_tail :: "string \<Rightarrow> (string \<times> nat) option" where
  "param_tail s =
     (case spaces1 s of
        None \<Rightarrow> None
      | Some n \<Rightarrow>
          (let nm = takeWhile is_word (drop n s) in
           if nm = [] then None
           else Some (nm, n + length nm
                          + length (takeWhile is_sp (drop (n + length nm) s)))))"

definition match_param :: "string \<Rightarrow> (string \<times> nat) option" where
  "match_param s =
     (if startswith s ''param'' then
        (case (if startswith (drop 5 s) ''eter'' then param_tail (drop 9 s) else None) of
           Some (nm, n) \<Rightarrow> Some (nm, 9 + n)
         | None \<Rightarrow> map_option (\<lambda>(nm, n). (nm, 5 + n)) (param_tail (drop 5 s)))
      else None)"

text \<open>\<open>atCommand.match\<close>: the match and \<open>match.end()\<close>.\<close>

definition atCommand_match :: "string \<Rightarrow> (at_command \<times> nat) option" where
  "atCommand_match s =
     (case s of
        [] \<Rightarrow> None
      | c # r \<Rightarrow>
          if c \<noteq> CHR ''@'' then None
          else (case first_keyword [''brief'', ''description'', ''details''] r of
                  Some (kw, n) \<Rightarrow> Some (CommandDrop kw, 1 + n)
                | None \<Rightarrow>
             (case match_return r of
                  Some n \<Rightarrow> Some (CommandReturn ''return'', 1 + n)
                | None \<Rightarrow>
             (case keyword_spaces ''version'' r of
                  Some n \<Rightarrow> Some (CommandCapitalise ''version'', 1 + n)
                | None \<Rightarrow>
             (case match_param r of
                  Some (nm, n) \<Rightarrow> Some (CommandParameter ''param'' nm, 1 + n)
                | None \<Rightarrow>
             (case keyword_spaces ''file'' r of
                  Some n \<Rightarrow> Some (CommandIgnore ''file'', 1 + n)
                | None \<Rightarrow> None))))))"

text \<open>
  \<open>matched_groups(match)\<close>: the names of the groups of the match. The
  text of the first of them, \<open>match.group(group)\<close>, is the first argument
  of the constructor.
\<close>

fun matched_groups :: "at_command \<Rightarrow> string list" where
  "matched_groups (CommandDrop v) = [''commandDrop'']"
| "matched_groups (CommandReturn v) = [''commandReturn'']"
| "matched_groups (CommandCapitalise v) = [''commandCapitalise'']"
| "matched_groups (CommandParameter v nm) = [''commandParameter'', ''name'']"
| "matched_groups (CommandIgnore v) = [''commandIgnore'']"

text \<open>
  The chain of \<open>if\<close> and \<open>elif\<close> over the group that both
  \<open>_at_command_hanging\<close> and \<open>_at_line\<close> have: the prefix, or
  \<open>None\<close> for the ignore group, where both return early.
\<close>

fun command_prefix :: "bool \<Rightarrow> at_command \<Rightarrow> string option" where
  "command_prefix swift (CommandParameter v nm) =
     Some ((if swift then ''- Parameter '' else ''@'' @ lower v @ '' '')
           @ nm @ (if swift then '':'' else []) @ '' '')"
| "command_prefix swift (CommandDrop v) =
     Some (if swift then [] else ''@'' @ lower v @ '' '')"
| "command_prefix swift (CommandCapitalise v) =
     Some (if swift then ''- '' @ capitalize v @ '': '' else ''@'' @ lower v @ '' '')"
| "command_prefix swift (CommandReturn v) =
     Some (if swift then ''- Returns: '' else ''@'' @ lower v @ '' '')"
| "command_prefix swift (CommandIgnore v) = None"

subsection \<open>\<open>OutputTree._at_command_hanging\<close>\<close>

text \<open>
  An \<open>output\<close> element as \<open>_at_command_hanging\<close> reads and writes it:
  its text, the attributes \<open>hanging\<close>, \<open>atGroups\<close> and \<open>atPrefix\<close>,
  and whether a \<open>warning\<close> child was inserted.
\<close>

record output_element =
  out_text :: string
  hanging :: "nat option"
  atGroups :: "string list option"
  atPrefix :: "string option"
  warning :: bool

definition at_command_hanging :: "bool \<Rightarrow> output_element \<Rightarrow> nat option \<times> output_element" where
  "at_command_hanging swift e =
     (case hanging e of
        None \<Rightarrow> (None, e)
      | Some h \<Rightarrow>
          (case atCommand_match (drop h (out_text e)) of
             None \<Rightarrow> (Some h, if startswith (out_text e) ''@'' then e\<lparr>warning := True\<rparr> else e)
           | Some (m, m_end) \<Rightarrow>
               (let e1 = e\<lparr>atGroups := Some (matched_groups m)\<rparr> in
                case command_prefix swift m of
                  None \<Rightarrow> (Some h, e1)
                | Some prefix \<Rightarrow>
                    (Some (h + length prefix),
                     e1\<lparr>atPrefix := Some prefix,
                        out_text := take h (out_text e) @ prefix
                                      @ drop m_end (drop h (out_text e))\<rparr>))))"

subsection \<open>\<open>CommentBlock._at_line\<close>\<close>

text \<open>
  The result is the pair the method returns and whether it printed the
  warning of an unrecognised at-command.
\<close>

definition at_line :: "bool \<Rightarrow> string \<Rightarrow> (string option \<times> string) \<times> bool" where
  "at_line swift line =
     (case atCommand_match line of
        None \<Rightarrow> ((None, line), startswith line ''@'')
      | Some (m, m_end) \<Rightarrow>
          (case command_prefix swift m of
             None \<Rightarrow> ((None, line), False)
           | Some prefix \<Rightarrow> ((Some prefix, drop m_end line), False)))"


lemma no_space_takeWhile: "\<not> startswith rest '' '' \<Longrightarrow> takeWhile is_sp rest = []"
  by (cases rest) (auto simp: startswith_def is_sp_def)

lemma takeWhile_spaces:
  "\<not> startswith rest '' '' \<Longrightarrow> takeWhile is_sp (replicate k (CHR '' '') @ rest) = replicate k (CHR '' '')"
  by (induction k) (auto simp: is_sp_def no_space_takeWhile)

lemma spaces1_replicate:
  "0 < k \<Longrightarrow> \<not> startswith rest '' '' \<Longrightarrow> spaces1 (replicate k (CHR '' '') @ rest) = Some k"
  by (simp add: spaces1_def takeWhile_spaces)

lemma keyword_spaces_here:
  "0 < k \<Longrightarrow> \<not> startswith rest '' '' \<Longrightarrow>
     keyword_spaces kw (kw @ replicate k (CHR '' '') @ rest) = Some (length kw + k)"
  by (simp add: keyword_spaces_def startswith_def spaces1_replicate)

lemma match_drop:
  assumes "kw \<in> set [''brief'', ''description'', ''details'']" "0 < k" "\<not> startswith rest '' ''"
  shows "atCommand_match (''@'' @ kw @ replicate k (CHR '' '') @ rest) = Some (CommandDrop kw, 1 + length kw + k)"
proof -
  have "first_keyword [''brief'', ''description'', ''details''] (kw @ replicate k (CHR '' '') @ rest)
          = Some (kw, length kw + k)"
    using assms(1) keyword_spaces_here[OF assms(2,3)]
    by (auto simp: keyword_spaces_def startswith_def)
  thus ?thesis by (simp add: atCommand_match_def)
qed

lemma match_return_forms:
  assumes "kw \<in> set [''return'', ''returns'']" "0 < k" "\<not> startswith rest '' ''"
  shows "atCommand_match (''@'' @ kw @ replicate k (CHR '' '') @ rest)
           = Some (CommandReturn ''return'', 1 + length kw + k)"
proof -
  obtain k' where k': "k = Suc k'" using assms(2) by (cases k) auto
  have "match_return (kw @ replicate k (CHR '' '') @ rest) = Some (length kw + k)"
    using assms(1) spaces1_replicate[OF assms(2,3)]
    by (auto simp: match_return_def startswith_def k')
  moreover have "first_keyword [''brief'', ''description'', ''details'']
                   (kw @ replicate k (CHR '' '') @ rest) = None"
    using assms(1) by (auto simp: keyword_spaces_def startswith_def)
  ultimately show ?thesis by (simp add: atCommand_match_def)
qed

lemma match_version:
  assumes "0 < k" "\<not> startswith rest '' ''"
  shows "atCommand_match (''@version'' @ replicate k (CHR '' '') @ rest)
           = Some (CommandCapitalise ''version'', 8 + k)"
proof -
  have "keyword_spaces ''version'' (''version'' @ replicate k (CHR '' '') @ rest) = Some (7 + k)"
    using keyword_spaces_here[OF assms, of "''version''"] by simp
  thus ?thesis
    by (simp add: atCommand_match_def keyword_spaces_def startswith_def match_return_def)
qed

lemma match_file:
  assumes "0 < k" "\<not> startswith rest '' ''"
  shows "atCommand_match (''@file'' @ replicate k (CHR '' '') @ rest)
           = Some (CommandIgnore ''file'', 5 + k)"
proof -
  have "keyword_spaces ''file'' (''file'' @ replicate k (CHR '' '') @ rest) = Some (4 + k)"
    using keyword_spaces_here[OF assms, of "''file''"] by simp
  thus ?thesis
    by (simp add: atCommand_match_def keyword_spaces_def startswith_def match_return_def
        match_param_def)
qed

lemma takeWhile_name:
  assumes "\<forall>c \<in> set nm. is_word c" "0 < j \<or> takeWhile is_word rest = []"
  shows "takeWhile is_word (nm @ replicate j (CHR '' '') @ rest) = nm"
proof -
  have "takeWhile is_word (replicate j (CHR '' '') @ rest) = []"
    using assms(2) by (cases j) (auto simp: is_word_def)
  thus ?thesis using assms(1) by (simp add: takeWhile_append2)
qed

lemma param_tail_here:
  assumes "0 < k" "nm \<noteq> []" "\<forall>c \<in> set nm. is_word c"
      and "0 < j \<or> takeWhile is_word rest = []" "\<not> startswith rest '' ''"
  shows "param_tail (replicate k (CHR '' '') @ nm @ replicate j (CHR '' '') @ rest)
           = Some (nm, k + length nm + j)"
proof -
  have nsp: "\<not> startswith (nm @ replicate j (CHR '' '') @ rest) '' ''"
    using assms(2,3) by (cases nm) (auto simp: startswith_def is_word_def)
  have s1: "spaces1 (replicate k (CHR '' '') @ nm @ replicate j (CHR '' '') @ rest) = Some k"
    by (rule spaces1_replicate[OF assms(1) nsp])
  show ?thesis
    using assms(2)
    by (simp add: param_tail_def s1 takeWhile_name[OF assms(3,4)] takeWhile_spaces[OF assms(5)])
qed

lemma match_param_forms:
  assumes "kw \<in> set [''param'', ''parameter'']"
      and "0 < k" "nm \<noteq> []" "\<forall>c \<in> set nm. is_word c"
      and "0 < j \<or> takeWhile is_word rest = []" "\<not> startswith rest '' ''"
  shows "atCommand_match
           (''@'' @ kw @ replicate k (CHR '' '') @ nm @ replicate j (CHR '' '') @ rest)
         = Some (CommandParameter ''param'' nm, 1 + length kw + k + length nm + j)"
proof -
  let ?t = "replicate k (CHR '' '') @ nm @ replicate j (CHR '' '') @ rest"
  obtain k' where k': "k = Suc k'" using assms(2) by (cases k) auto
  have pt: "param_tail ?t = Some (nm, k + length nm + j)"
    by (rule param_tail_here[OF assms(2-6)])
  consider "kw = ''param''" | "kw = ''parameter''" using assms(1) by auto
  hence "match_param (kw @ ?t) = Some (nm, length kw + k + length nm + j)"
  proof cases
    case 1
    have "\<not> startswith ?t ''eter''" by (simp add: startswith_def k')
    moreover have "startswith (''param'' @ ?t) ''param''" by (simp add: startswith_def)
    ultimately show ?thesis using 1 pt by (simp add: match_param_def)
  next
    case 2
    have "startswith (''parameter'' @ ?t) ''param''" by (simp add: startswith_def)
    moreover have "startswith (''eter'' @ ?t) ''eter''" by (simp add: startswith_def)
    ultimately show ?thesis using 2 pt by (simp add: match_param_def)
  qed
  moreover have "first_keyword [''brief'', ''description'', ''details''] (kw @ ?t) = None"
    using assms(1) by (auto simp: keyword_spaces_def startswith_def)
  moreover have "match_return (kw @ ?t) = None"
    using assms(1) by (auto simp: match_return_def startswith_def)
  moreover have "keyword_spaces ''version'' (kw @ ?t) = None"
    using assms(1) by (auto simp: keyword_spaces_def startswith_def)
  ultimately show ?thesis by (simp add: atCommand_match_def)
qed

lemma lower_drop_keyword:
  "d \<in> set [''brief'', ''description'', ''details''] \<Longrightarrow> lower d = d"
  by (auto simp: lower_def lower_char_def)

text \<open>
  C5. A text that starts, after the hanging indent \<open>pad\<close>, with a
  recognised at-command: one of \<open>@brief\<close>, \<open>@description\<close>,
  \<open>@details\<close> (the drop group, \<open>d\<close>), \<open>@return\<close> or
  \<open>@returns\<close> (\<open>r\<close>), \<open>@version\<close>, or \<open>@param\<close> or
  \<open>@parameter\<close> (\<open>p\<close>) with a name \<open>nm\<close> of word characters
  (all of them: \<open>j\<close> spaces follow the name, or what follows it starts
  with no word character), each followed by \<open>k\<close> spaces, at least one. Both \<open>_at_line\<close> and
  \<open>_at_command_hanging\<close> replace the command by the prefix of the
  convention: for Doxygen \<open>@\<close>, the keyword of the group and one space
  (\<open>@return\<close> also for \<open>@returns\<close>, \<open>@param\<close> also for
  \<open>@parameter\<close>, the name and one space after it); for Swift nothing for
  the drop group, \<open>- Returns: \<close>, \<open>- Version: \<close> and
  \<open>- Parameter nm: \<close>. No warning is given, and
  \<open>_at_command_hanging\<close> returns the hanging indent plus the length of
  the prefix.
\<close>

theorem at_command_rewritten_prefix:
  assumes k: "0 < k" and rest: "\<not> startswith rest '' ''"
      and nm: "nm \<noteq> []" "\<forall>c \<in> set nm. is_word c"
      and after_name: "0 < j \<or> takeWhile is_word rest = []"
      and d: "d \<in> set [''brief'', ''description'', ''details'']"
      and r: "r \<in> set [''return'', ''returns'']"
      and p: "p \<in> set [''param'', ''parameter'']"
  shows
    "at_line swift (''@'' @ d @ replicate k (CHR '' '') @ rest)
       = ((Some (if swift then [] else ''@'' @ d @ '' ''), rest), False)
   \<and> at_line swift (''@'' @ r @ replicate k (CHR '' '') @ rest)
       = ((Some (if swift then ''- Returns: '' else ''@return ''), rest), False)
   \<and> at_line swift (''@version'' @ replicate k (CHR '' '') @ rest)
       = ((Some (if swift then ''- Version: '' else ''@version ''), rest), False)
   \<and> at_line swift (''@'' @ p @ replicate k (CHR '' '') @ nm @ replicate j (CHR '' '') @ rest)
       = ((Some (if swift then ''- Parameter '' @ nm @ '': '' else ''@param '' @ nm @ '' ''),
           rest), False)
   \<and> at_command_hanging swift
         (e\<lparr>out_text := pad @ ''@'' @ d @ replicate k (CHR '' '') @ rest,
            hanging := Some (length pad)\<rparr>)
       = (Some (length pad + length (if swift then [] else ''@'' @ d @ '' '')),
          e\<lparr>out_text := pad @ (if swift then [] else ''@'' @ d @ '' '') @ rest,
            hanging := Some (length pad), atGroups := Some [''commandDrop''],
            atPrefix := Some (if swift then [] else ''@'' @ d @ '' '')\<rparr>)
   \<and> at_command_hanging swift
         (e\<lparr>out_text := pad @ ''@'' @ r @ replicate k (CHR '' '') @ rest,
            hanging := Some (length pad)\<rparr>)
       = (Some (length pad + length (if swift then ''- Returns: '' else ''@return '')),
          e\<lparr>out_text := pad @ (if swift then ''- Returns: '' else ''@return '') @ rest,
            hanging := Some (length pad), atGroups := Some [''commandReturn''],
            atPrefix := Some (if swift then ''- Returns: '' else ''@return '')\<rparr>)
   \<and> at_command_hanging swift
         (e\<lparr>out_text := pad @ ''@version'' @ replicate k (CHR '' '') @ rest,
            hanging := Some (length pad)\<rparr>)
       = (Some (length pad + length (if swift then ''- Version: '' else ''@version '')),
          e\<lparr>out_text := pad @ (if swift then ''- Version: '' else ''@version '') @ rest,
            hanging := Some (length pad), atGroups := Some [''commandCapitalise''],
            atPrefix := Some (if swift then ''- Version: '' else ''@version '')\<rparr>)
   \<and> at_command_hanging swift
         (e\<lparr>out_text := pad @ ''@'' @ p @ replicate k (CHR '' '') @ nm
                          @ replicate j (CHR '' '') @ rest,
            hanging := Some (length pad)\<rparr>)
       = (Some (length pad
                + length (if swift then ''- Parameter '' @ nm @ '': '' else ''@param '' @ nm @ '' '')),
          e\<lparr>out_text := pad @ (if swift then ''- Parameter '' @ nm @ '': ''
                                  else ''@param '' @ nm @ '' '') @ rest,
            hanging := Some (length pad), atGroups := Some [''commandParameter'', ''name''],
            atPrefix := Some (if swift then ''- Parameter '' @ nm @ '': ''
                              else ''@param '' @ nm @ '' '')\<rparr>)"
proof -
  note md = match_drop[OF d k rest, simplified]
  note mr = match_return_forms[OF r k rest, simplified]
  note mv = match_version[OF k rest, simplified]
  note mp = match_param_forms[OF p k nm after_name rest, simplified]
  note ld = lower_drop_keyword[OF d]
  have lr: "lower ''return'' = ''return''" "lower ''version'' = ''version''"
    "lower ''param'' = ''param''" "capitalize ''version'' = ''Version''"
    by (simp_all add: lower_def lower_char_def capitalize_def upper_char_def)
  have c1: "at_line swift (''@'' @ d @ replicate k (CHR '' '') @ rest)
       = ((Some (if swift then [] else ''@'' @ d @ '' ''), rest), False)"
    by (simp add: at_line_def md ld)
  have c2: "at_line swift (''@'' @ r @ replicate k (CHR '' '') @ rest)
       = ((Some (if swift then ''- Returns: '' else ''@return ''), rest), False)"
    by (simp add: at_line_def mr lr)
  have c3: "at_line swift (''@version'' @ replicate k (CHR '' '') @ rest)
       = ((Some (if swift then ''- Version: '' else ''@version ''), rest), False)"
    by (simp add: at_line_def mv lr drop_Cons')
  have c4: "at_line swift (''@'' @ p @ replicate k (CHR '' '') @ nm @ replicate j (CHR '' '') @ rest)
       = ((Some (if swift then ''- Parameter '' @ nm @ '': '' else ''@param '' @ nm @ '' ''),
           rest), False)"
    by (simp add: at_line_def mp lr)
  have c5: "at_command_hanging swift
         (e\<lparr>out_text := pad @ ''@'' @ d @ replicate k (CHR '' '') @ rest,
            hanging := Some (length pad)\<rparr>)
       = (Some (length pad + length (if swift then [] else ''@'' @ d @ '' '')),
          e\<lparr>out_text := pad @ (if swift then [] else ''@'' @ d @ '' '') @ rest,
            hanging := Some (length pad), atGroups := Some [''commandDrop''],
            atPrefix := Some (if swift then [] else ''@'' @ d @ '' '')\<rparr>)"
    by (simp add: at_command_hanging_def md ld)
  have c6: "at_command_hanging swift
         (e\<lparr>out_text := pad @ ''@'' @ r @ replicate k (CHR '' '') @ rest,
            hanging := Some (length pad)\<rparr>)
       = (Some (length pad + length (if swift then ''- Returns: '' else ''@return '')),
          e\<lparr>out_text := pad @ (if swift then ''- Returns: '' else ''@return '') @ rest,
            hanging := Some (length pad), atGroups := Some [''commandReturn''],
            atPrefix := Some (if swift then ''- Returns: '' else ''@return '')\<rparr>)"
    by (simp add: at_command_hanging_def mr lr)
  have c7: "at_command_hanging swift
         (e\<lparr>out_text := pad @ ''@version'' @ replicate k (CHR '' '') @ rest,
            hanging := Some (length pad)\<rparr>)
       = (Some (length pad + length (if swift then ''- Version: '' else ''@version '')),
          e\<lparr>out_text := pad @ (if swift then ''- Version: '' else ''@version '') @ rest,
            hanging := Some (length pad), atGroups := Some [''commandCapitalise''],
            atPrefix := Some (if swift then ''- Version: '' else ''@version '')\<rparr>)"
    by (simp add: at_command_hanging_def mv lr drop_Cons')
  have c8: "at_command_hanging swift
         (e\<lparr>out_text := pad @ ''@'' @ p @ replicate k (CHR '' '') @ nm
                          @ replicate j (CHR '' '') @ rest,
            hanging := Some (length pad)\<rparr>)
       = (Some (length pad
                + length (if swift then ''- Parameter '' @ nm @ '': '' else ''@param '' @ nm @ '' '')),
          e\<lparr>out_text := pad @ (if swift then ''- Parameter '' @ nm @ '': ''
                                  else ''@param '' @ nm @ '' '') @ rest,
            hanging := Some (length pad), atGroups := Some [''commandParameter'', ''name''],
            atPrefix := Some (if swift then ''- Parameter '' @ nm @ '': ''
                              else ''@param '' @ nm @ '' '')\<rparr>)"
    by (simp add: at_command_hanging_def mp lr)
  from c1 c2 c3 c4 c5 c6 c7 c8 show ?thesis by blast
qed

lemmas at_eval = at_line_def at_command_hanging_def atCommand_match_def keyword_spaces_def
  spaces1_def match_return_def match_param_def param_tail_def startswith_def is_sp_def
  is_word_def lower_def lower_char_def capitalize_def upper_char_def

text \<open>
  The comment of the scenarios of the specification,
  \<open>@param foo the foo value\<close>, in the Swift convention, and a
  parameter whose name ends with the letter \<open>0xE9\<close>, in the Doxygen
  convention.
\<close>

theorem at_command_rewritten_prefix_witness:
  "at_line True ''@param foo the foo value''
      = ((Some ''- Parameter foo: '', ''the foo value''), False)
   \<and> at_line True ''@returns the foo value'' = ((Some ''- Returns: '', ''the foo value''), False)
   \<and> at_command_hanging True
        \<lparr>out_text = ''@param foo the foo value'', hanging = Some 0, atGroups = None,
           atPrefix = None, warning = False\<rparr>
      = (Some 17,
         \<lparr>out_text = ''- Parameter foo: the foo value'', hanging = Some 0,
            atGroups = Some [''commandParameter'', ''name''],
            atPrefix = Some ''- Parameter foo: '', warning = False\<rparr>)
   \<and> at_line False (''@parameter caf'' @ [CHR 0xE9] @ ''  x'')
      = ((Some (''@param caf'' @ [CHR 0xE9] @ '' ''), ''x''), False)"
proof -
  have h: "(0::nat) < 1" "\<not> startswith ''the foo value'' '' ''" "''foo'' \<noteq> []"
    "\<forall>c \<in> set ''foo''. is_word c" "(0::nat) < 1 \<or> takeWhile is_word ''the foo value'' = []"
    "''brief'' \<in> set [''brief'', ''description'', ''details'']"
    "''returns'' \<in> set [''return'', ''returns'']"
    "''param'' \<in> set [''param'', ''parameter'']"
    by (simp_all add: startswith_def is_word_def)
  have g: "(0::nat) < 1" "\<not> startswith ''x'' '' ''" "''caf'' @ [CHR 0xE9] \<noteq> []"
    "\<forall>c \<in> set (''caf'' @ [CHR 0xE9]). is_word c" "(0::nat) < 2 \<or> takeWhile is_word ''x'' = []"
    "''brief'' \<in> set [''brief'', ''description'', ''details'']"
    "''returns'' \<in> set [''return'', ''returns'']"
    "''parameter'' \<in> set [''param'', ''parameter'']"
    by (simp_all add: startswith_def is_word_def)
  from at_command_rewritten_prefix[OF h, where swift = True and pad = "[]" and e =
      "\<lparr>out_text = [], hanging = None, atGroups = None, atPrefix = None, warning = False\<rparr>"]
    at_command_rewritten_prefix[OF g, where swift = False and pad = "[]" and e =
      "\<lparr>out_text = [], hanging = None, atGroups = None, atPrefix = None, warning = False\<rparr>"]
  show ?thesis by (simp add: eval_nat_numeral)
qed

subsection \<open>The file tag\<close>

text \<open>
  C9, as the claim states it: a text that starts with the file tag, as
  \<open>@file main.h\<close>, is consumed, so that the tag does not reach the
  output. In both conventions the text of the element is the same after
  \<open>_at_command_hanging\<close> as before, the tag included, and
  \<open>_comment_outputs\<close> wraps and writes this text; \<open>_at_line\<close>
  returns the line as it is.
\<close>

theorem file_tag_kept_counterexample:
  "out_text (snd (at_command_hanging False
      \<lparr>out_text = ''@file main.h'', hanging = Some 0, atGroups = None, atPrefix = None,
         warning = False\<rparr>)) = ''@file main.h''
   \<and> out_text (snd (at_command_hanging True
      \<lparr>out_text = ''@file main.h'', hanging = Some 0, atGroups = None, atPrefix = None,
         warning = False\<rparr>)) = ''@file main.h''
   \<and> at_line False ''@file main.h'' = ((None, ''@file main.h''), False)
   \<and> at_line True ''@file main.h'' = ((None, ''@file main.h''), False)"
  by (simp add: at_eval)

text \<open>
  C9, amended. The file tag followed by at least one space is left as it is in
  both conventions: no warning is given, no prefix is computed, the hanging
  indent is returned unchanged, and the text, with the tag, stays what it was.
  \<open>_at_command_hanging\<close> only records the group in \<open>atGroups\<close>.
\<close>

theorem file_tag_left_untouched:
  assumes k: "0 < k" and rest: "\<not> startswith rest '' ''"
  shows "at_line swift (''@file'' @ replicate k (CHR '' '') @ rest)
           = ((None, ''@file'' @ replicate k (CHR '' '') @ rest), False)
       \<and> at_command_hanging swift
            (e\<lparr>out_text := pad @ ''@file'' @ replicate k (CHR '' '') @ rest,
               hanging := Some (length pad)\<rparr>)
           = (Some (length pad),
              e\<lparr>out_text := pad @ ''@file'' @ replicate k (CHR '' '') @ rest,
                hanging := Some (length pad), atGroups := Some [''commandIgnore'']\<rparr>)"
proof -
  note mf = match_file[OF k rest, simplified]
  show ?thesis by (simp add: at_line_def at_command_hanging_def mf)
qed

theorem file_tag_left_untouched_witness:
  "at_line True ''@file main.h'' = ((None, ''@file main.h''), False)
   \<and> at_command_hanging False
        \<lparr>out_text = ''    @file main.h'', hanging = Some 4, atGroups = None, atPrefix = None,
           warning = False\<rparr>
      = (Some 4,
         \<lparr>out_text = ''    @file main.h'', hanging = Some 4,
            atGroups = Some [''commandIgnore''], atPrefix = None, warning = False\<rparr>)"
proof -
  have h: "(0::nat) < 1" "\<not> startswith ''main.h'' '' ''" by (simp_all add: startswith_def)
  from file_tag_left_untouched[OF h, where swift = True and pad = "[]" and e =
      "\<lparr>out_text = [], hanging = None, atGroups = None, atPrefix = None, warning = False\<rparr>"]
    file_tag_left_untouched[OF h, where swift = False and pad = "''    ''" and e =
      "\<lparr>out_text = [], hanging = None, atGroups = None, atPrefix = None, warning = False\<rparr>"]
  show ?thesis by (simp add: eval_nat_numeral)
qed

end
